theory Spec2Isabelle
  imports Complex_Main "HOL-Library.Multiset"
begin

section \<open>One-way file synchronisation: \<^verbatim>\<open>Exercise_1/file_sync.c\<close>\<close>

text \<open>
  The program resolves a source and a destination directory, lists the regular files of
  the source directory (at most \<^verbatim>\<open>MAX_FILES\<close>), sorts their names with \<^verbatim>\<open>qsort\<close> and
  \<^verbatim>\<open>strcmp\<close>, and for each name decides between copying and skipping. It compares
  contents by running \<^verbatim>\<open>diff -q\<close> and copies by running \<^verbatim>\<open>cp\<close>, each in a forked child.

  The C functions are embedded one by one, under their own names. What they call in the
  operating system (\<^verbatim>\<open>stat\<close>, \<^verbatim>\<open>mkdir\<close>, \<^verbatim>\<open>realpath\<close>, \<^verbatim>\<open>readdir\<close>, \<^verbatim>\<open>fork\<close> and
  \<^verbatim>\<open>wait\<close>, the two utilities) is modelled by an explicit world, described first.
\<close>

subsection \<open>Constants\<close>

definition MAX_FILES :: nat where
  "MAX_FILES = 100"

definition MAX_PATH :: nat where
  "MAX_PATH = 1024"

subsection \<open>The environment: a file system keyed by absolute path strings\<close>

text \<open>
  Scope of the environment model.
  \<^item> A file system is an association list from absolute path strings to nodes; its order
    is the order in which \<^verbatim>\<open>readdir\<close> reports entries. The root directory is the entry
    under \<^verbatim>\<open>/\<close>.
  \<^item> Path strings are taken literally: a relative path is prefixed with the working
    directory, and nothing else is rewritten (\<^verbatim>\<open>.\<close>, \<^verbatim>\<open>..\<close>, repeated and trailing
    separators are not interpreted).
  \<^item> A node is a regular file, a directory, a fifo or a symbolic link; sockets and
    devices, permissions and hard links are outside the model. Opening a fifo blocks: no
    process of a run holds its other end.
  \<^item> A symbolic link stores an absolute target and is followed when it is the last
    component of a path, at most \<open>MAXSYMLINKS\<close> times.
  \<^item> Time is a clock value of the world. A file written by \<^verbatim>\<open>cp\<close> is stamped with it, and
    so is a directory in which an entry is created.
  \<^item> Storage is bounded by a size limit for a file: a write that reaches it fails and
    leaves the bytes written so far.
  \<^item> A child process runs its utility, or fails to execute it, or is ended by a signal
    before it did anything, or is not created at all because \<^verbatim>\<open>fork\<close> fails.
\<close>

type_synonym path = string

datatype node =
    Reg string int    \<comment> \<open>regular file: content bytes, \<^verbatim>\<open>st_mtime\<close>\<close>
  | Dir int           \<comment> \<open>directory: \<^verbatim>\<open>st_mtime\<close>\<close>
  | Fifo int          \<comment> \<open>fifo: \<^verbatim>\<open>st_mtime\<close>\<close>
  | Symlink path      \<comment> \<open>symbolic link: target\<close>

datatype child =
    Runs              \<comment> \<open>\<^verbatim>\<open>fork\<close> and \<^verbatim>\<open>execl\<close> succeed\<close>
  | ExecFails         \<comment> \<open>\<^verbatim>\<open>execl\<close> returns: the child reports it and calls \<^verbatim>\<open>exit(1)\<close>\<close>
  | Killed            \<comment> \<open>the child is ended by \<^verbatim>\<open>SIGKILL\<close> before it did anything\<close>
  | NoFork            \<comment> \<open>\<^verbatim>\<open>fork\<close> returns -1: there is no child\<close>

record world =
  fs :: "(path \<times> node) list"
  cwd :: path
  clock :: int
  diff_child :: child     \<comment> \<open>what becomes of a child meant to run \<^verbatim>\<open>/usr/bin/diff\<close>\<close>
  cp_child :: child       \<comment> \<open>what becomes of a child meant to run \<^verbatim>\<open>/bin/cp\<close>\<close>
  uninit :: int           \<comment> \<open>what an uninitialised \<^verbatim>\<open>st_mtime\<close> on the stack reads as\<close>
  uninit_status :: nat    \<comment> \<open>what an uninitialised \<^verbatim>\<open>int status\<close> on the stack reads as\<close>
  file_size_limit :: nat  \<comment> \<open>bytes a file can take before a write fails (\<^verbatim>\<open>ENOSPC\<close>, \<^verbatim>\<open>EFBIG\<close>)\<close>

definition MAXSYMLINKS :: nat where
  "MAXSYMLINKS = 40"

definition abspath :: "world \<Rightarrow> path \<Rightarrow> path" where
  "abspath w p = (if p \<noteq> [] \<and> hd p = CHR ''/'' then p else cwd w @ ''/'' @ p)"

definition basename :: "path \<Rightarrow> string" where
  "basename p = rev (takeWhile (\<lambda>c. c \<noteq> CHR ''/'') (rev p))"

definition dirname :: "path \<Rightarrow> path" where
  "dirname p =
     (let d = rev (drop 1 (dropWhile (\<lambda>c. c \<noteq> CHR ''/'') (rev p)))
      in if d = [] then ''/'' else d)"

text \<open>
  Following links at the last component, with one unit of fuel for each node looked at;
  \<open>None\<close> is \<^verbatim>\<open>ENOENT\<close> or \<^verbatim>\<open>ELOOP\<close>. A path resolves through \<open>MAXSYMLINKS\<close> links at most.
\<close>

fun follow :: "nat \<Rightarrow> (path \<times> node) list \<Rightarrow> path \<Rightarrow> (path \<times> node) option" where
  "follow 0 tab k = None"
| "follow (Suc n) tab k =
     (case map_of tab k of
        None \<Rightarrow> None
      | Some (Symlink t) \<Rightarrow> follow n tab t
      | Some nd \<Rightarrow> Some (k, nd))"

definition resolve :: "world \<Rightarrow> path \<Rightarrow> (path \<times> node) option" where
  "resolve w p =
     (if p = [] then None else follow (Suc MAXSYMLINKS) (fs w) (abspath w p))"

text \<open>\<^verbatim>\<open>lstat\<close>: the node under the path itself; \<^verbatim>\<open>stat\<close>: the node the path leads to.\<close>

definition lstat :: "world \<Rightarrow> path \<Rightarrow> node option" where
  "lstat w p = (if p = [] then None else map_of (fs w) (abspath w p))"

definition stat :: "world \<Rightarrow> path \<Rightarrow> node option" where
  "stat w p = map_option snd (resolve w p)"

fun st_mtime :: "node \<Rightarrow> int" where
  "st_mtime (Reg c t) = t"
| "st_mtime (Dir t) = t"
| "st_mtime (Fifo t) = t"
| "st_mtime (Symlink t) = 0"

fun S_ISREG :: "node \<Rightarrow> bool" where
  "S_ISREG (Reg c t) = True"
| "S_ISREG nd = False"

fun S_ISDIR :: "node \<Rightarrow> bool" where
  "S_ISDIR (Dir t) = True"
| "S_ISDIR nd = False"

text \<open>Storing a node under a key: in place when the key is bound, at the end otherwise.\<close>

fun store :: "path \<Rightarrow> node \<Rightarrow> (path \<times> node) list \<Rightarrow> (path \<times> node) list" where
  "store k nd [] = [(k, nd)]"
| "store k nd ((k', nd') # tab) =
     (if k = k' then (k, nd) # tab else (k', nd') # store k nd tab)"

text \<open>
  Creating an entry: the node is stored under its key, and the directory that takes the
  entry gets the time of the clock.
\<close>

fun touch :: "path \<Rightarrow> int \<Rightarrow> (path \<times> node) list \<Rightarrow> (path \<times> node) list" where
  "touch k now [] = []"
| "touch k now ((k', nd) # tab) =
     (if k = k' then (k', (case nd of Dir t \<Rightarrow> Dir now | _ \<Rightarrow> nd)) # tab
      else (k', nd) # touch k now tab)"

definition add_entry :: "world \<Rightarrow> path \<Rightarrow> node \<Rightarrow> world" where
  "add_entry w k nd = w\<lparr>fs := store k nd (touch (dirname k) (clock w) (fs w))\<rparr>"

text \<open>
  \<^verbatim>\<open>mkdir(path, 0755)\<close>: fails (\<^verbatim>\<open>EEXIST\<close>) when the path is bound, also to a dangling
  link, and (\<^verbatim>\<open>ENOENT\<close>, \<^verbatim>\<open>ENOTDIR\<close>) when its parent is not a directory. The result is
  the C return value, 0 or -1.
\<close>

definition mkdir :: "world \<Rightarrow> path \<Rightarrow> world \<times> int" where
  "mkdir w p =
     (if p = [] then (w, -1)
      else let k = abspath w p in
        case map_of (fs w) k of
          Some nd \<Rightarrow> (w, -1)
        | None \<Rightarrow>
           (case map_of (fs w) (dirname k) of
              Some (Dir t) \<Rightarrow> (add_entry w k (Dir (clock w)), 0)
            | _ \<Rightarrow> (w, -1)))"

text \<open>\<^verbatim>\<open>realpath\<close>: the key the path leads to, when it leads anywhere.\<close>

definition realpath :: "world \<Rightarrow> path \<Rightarrow> path option" where
  "realpath w p = map_option fst (resolve w p)"

text \<open>\<^verbatim>\<open>getcwd(buf, size)\<close> fails (\<^verbatim>\<open>ERANGE\<close>) when the name and its terminator do not fit.\<close>

definition getcwd :: "world \<Rightarrow> nat \<Rightarrow> path option" where
  "getcwd w sz = (if length (cwd w) < sz then Some (cwd w) else None)"

text \<open>
  \<^verbatim>\<open>opendir\<close> succeeds on a directory. \<^verbatim>\<open>readdir\<close> then reports the two pseudo-entries and
  the names bound directly under the directory, in the order of the table.
\<close>

definition opendir :: "world \<Rightarrow> path \<Rightarrow> path option" where
  "opendir w p =
     (case resolve w p of
        Some (k, Dir t) \<Rightarrow> Some k
      | _ \<Rightarrow> None)"

definition readdir :: "world \<Rightarrow> path \<Rightarrow> string list" where
  "readdir w d =
     ''.'' # ''..'' #
     map (\<lambda>(k, nd). basename k)
       (filter (\<lambda>(k, nd). dirname k = d \<and> k \<noteq> d \<and> basename k \<noteq> []) (fs w))"

text \<open>
  \<^verbatim>\<open>diff -q a b\<close>, by its exit status: 0 when the two files have the same bytes, 1 when
  they differ, 2 on trouble; \<open>None\<close> when it never exits, blocked on a fifo. When \<open>b\<close> is
  a directory, \<open>a\<close> is compared with the file of its name inside \<open>b\<close>. The first
  operand is a regular file whenever \<^verbatim>\<open>main\<close> runs the comparison; the comparison of a
  directory with anything is not modelled and stands as trouble.
\<close>

definition diff_q :: "world \<Rightarrow> path \<Rightarrow> path \<Rightarrow> nat option" where
  "diff_q w a b =
     (case stat w a of
        Some (Reg ca ta) \<Rightarrow>
          (case stat w b of
             Some (Reg cb tb) \<Rightarrow> Some (if ca = cb then 0 else 1)
           | Some (Dir tb) \<Rightarrow>
               (case stat w (b @ ''/'' @ basename a) of
                  Some (Reg cb tb') \<Rightarrow> Some (if ca = cb then 0 else 1)
                | Some (Fifo tb') \<Rightarrow> None
                | _ \<Rightarrow> Some 2)
           | Some (Fifo tb) \<Rightarrow> None
           | _ \<Rightarrow> Some 2)
      | Some (Fifo ta) \<Rightarrow> None
      | _ \<Rightarrow> Some 2)"

text \<open>
  \<^verbatim>\<open>cp a b\<close>, by its effect and exit status; \<open>None\<close> when it never exits, blocked on a
  fifo. The source must lead to a regular file. When \<open>b\<close> is a directory the target is
  the source's name inside it. An existing regular target is opened in place and
  truncated (unless it is the source itself), a directory or a dangling link is refused,
  and a new file needs its parent directory. The bytes are stored in order; the write that
  reaches the size limit fails, and the bytes stored so far stay.
\<close>

definition cp_target :: "world \<Rightarrow> path \<Rightarrow> path \<Rightarrow> path" where
  "cp_target w a b =
     (case stat w b of
        Some (Dir t) \<Rightarrow> b @ ''/'' @ basename a
      | _ \<Rightarrow> b)"

definition cp_bytes :: "world \<Rightarrow> string \<Rightarrow> string \<times> nat" where
  "cp_bytes w c =
     (if length c < file_size_limit w then (c, 0) else (take (file_size_limit w) c, 1))"

definition cp :: "world \<Rightarrow> path \<Rightarrow> path \<Rightarrow> (world \<times> nat) option" where
  "cp w a b =
     (case resolve w a of
        Some (ka, Reg ca ta) \<Rightarrow>
          (let b' = cp_target w a b in
           case resolve w b' of
             Some (kb, Reg cb tb) \<Rightarrow>
               (if kb = ka then Some (w, 1)
                else Some (w\<lparr>fs := store kb (Reg (fst (cp_bytes w ca)) (clock w)) (fs w)\<rparr>,
                           snd (cp_bytes w ca)))
           | Some (kb, Fifo tb) \<Rightarrow> None
           | Some (kb, nd) \<Rightarrow> Some (w, 1)
           | None \<Rightarrow>
               (if b' = [] \<or> lstat w b' \<noteq> None then Some (w, 1)
                else case map_of (fs w) (dirname (abspath w b')) of
                       Some (Dir t) \<Rightarrow>
                         Some (add_entry w (abspath w b') (Reg (fst (cp_bytes w ca)) (clock w)),
                               snd (cp_bytes w ca))
                     | _ \<Rightarrow> Some (w, 1)))
      | Some (ka, Fifo ta) \<Rightarrow> None
      | _ \<Rightarrow> Some (w, 1))"

text \<open>
  The status word \<^verbatim>\<open>wait\<close> stores: exit code and ending signal, as \<^verbatim>\<open>W_EXITCODE\<close> packs
  them; and the macro \<^verbatim>\<open>WEXITSTATUS\<close>, which reads the exit code back whether or not the
  child exited. \<^verbatim>\<open>SIGKILL\<close> is signal 9.
\<close>

definition W_EXITCODE :: "nat \<Rightarrow> nat \<Rightarrow> nat" where
  "W_EXITCODE ret sig = (ret mod 256) * 256 + sig mod 128"

definition WEXITSTATUS :: "nat \<Rightarrow> nat" where
  "WEXITSTATUS status = (status div 256) mod 256"

definition SIGKILL :: nat where
  "SIGKILL = 9"

subsection \<open>Output and outcomes\<close>

text \<open>
  What a run writes, in the order of the parent's execution. One constructor for each
  line the program prints on standard output or (the \<open>Perror\<close> ones) on standard error,
  and three for what a child writes on the descriptors it inherits:
  \<^item> \<open>DiffMessage\<close> and \<open>CpMessage\<close>: the line with which the utility reports trouble on
    standard error before it exits with a status that is not success;
  \<^item> \<open>ChildFlush\<close>: a child that calls \<^verbatim>\<open>exit\<close> after a failed \<^verbatim>\<open>execl\<close> flushes its copy
    of the parent's buffer of standard output, so the lines of the parent still pending
    there are written once more. The child of \<^verbatim>\<open>files_are_different\<close> redirected its
    standard output to \<^verbatim>\<open>/dev/null\<close> before, where that copy is lost.
\<close>

datatype event =
    Usage
  | SourceMissing string
  | CreatedDestination string
  | PerrorGetcwd
  | WorkingDirectory string
  | Synchronizing string string
  | PerrorOpendir
  | NewFileFound string
  | Identical string
  | NewerInSource string
  | NewerInDestination string
  | Copied string string
  | PerrorExecDiff
  | PerrorExecCp
  | DiffMessage
  | CpMessage
  | ChildFlush
  | Complete

datatype decision = Copy_New | Copy_Update | Skip_Identical | Skip_DestinationNewer

text \<open>The decision a line of the parent announces, with the file's name.\<close>

fun decision_of :: "event \<Rightarrow> (string \<times> decision) option" where
  "decision_of (NewFileFound f) = Some (f, Copy_New)"
| "decision_of (Identical f) = Some (f, Skip_Identical)"
| "decision_of (NewerInSource f) = Some (f, Copy_Update)"
| "decision_of (NewerInDestination f) = Some (f, Skip_DestinationNewer)"
| "decision_of e = None"

definition decisions :: "event list \<Rightarrow> (string \<times> decision) list" where
  "decisions evs = List.map_filter decision_of evs"

text \<open>
  A call that has no result: an access outside a buffer has no defined behaviour in C,
  and a parent waiting for a child that is blocked on a fifo waits forever.
\<close>

datatype fault = BufferOverrun | NeverReturns

subsection \<open>\<^verbatim>\<open>compare\<close> and the sort\<close>

text \<open>\<^verbatim>\<open>strcmp\<close> compares bytes as unsigned values and stops at a NUL byte.\<close>

fun strcmp :: "string \<Rightarrow> string \<Rightarrow> int" where
  "strcmp [] [] = 0"
| "strcmp [] (y # ys) = - int (of_char y)"
| "strcmp (x # xs) [] = int (of_char x)"
| "strcmp (x # xs) (y # ys) =
     (if x = y then (if x = CHR 0x00 then 0 else strcmp xs ys)
      else int (of_char x) - int (of_char y))"

definition compare :: "string \<Rightarrow> string \<Rightarrow> int" where
  "compare a b = strcmp a b"

text \<open>
  \<^verbatim>\<open>qsort\<close> leaves the array ordered by the comparator; which algorithm it runs is not
  specified. Insertion by the comparator stands for it.
\<close>

fun qsort_insert :: "('a \<Rightarrow> 'a \<Rightarrow> int) \<Rightarrow> 'a \<Rightarrow> 'a list \<Rightarrow> 'a list" where
  "qsort_insert cmp x [] = [x]"
| "qsort_insert cmp x (y # ys) =
     (if cmp x y \<le> 0 then x # y # ys else y # qsort_insert cmp x ys)"

definition qsort :: "('a \<Rightarrow> 'a \<Rightarrow> int) \<Rightarrow> 'a list \<Rightarrow> 'a list" where
  "qsort cmp xs = foldr (qsort_insert cmp) xs []"

subsection \<open>The predicates on files\<close>

definition file_exists :: "world \<Rightarrow> path \<Rightarrow> bool" where
  "file_exists w p = (stat w p \<noteq> None)"

definition is_regular_file :: "world \<Rightarrow> path \<Rightarrow> bool" where
  "is_regular_file w p = (case stat w p of Some nd \<Rightarrow> S_ISREG nd | None \<Rightarrow> False)"

text \<open>
  \<^verbatim>\<open>source_is_newer\<close> ignores the result of both \<^verbatim>\<open>stat\<close> calls: after a failed call the
  buffer still holds whatever the stack held. \<^verbatim>\<open>difftime\<close> is the difference of the two
  times as a floating-point number; the difference of two integers is zero only when they
  are equal, and rounding it keeps its sign.
\<close>

definition stat_mtime :: "world \<Rightarrow> path \<Rightarrow> int" where
  "stat_mtime w p = (case stat w p of Some nd \<Rightarrow> st_mtime nd | None \<Rightarrow> uninit w)"

definition difftime :: "int \<Rightarrow> int \<Rightarrow> real" where
  "difftime t1 t0 = real_of_int t1 - real_of_int t0"

definition source_is_newer :: "world \<Rightarrow> path \<Rightarrow> path \<Rightarrow> bool" where
  "source_is_newer w src dst = (difftime (stat_mtime w src) (stat_mtime w dst) > 0)"

subsection \<open>The two child processes\<close>

text \<open>
  \<^verbatim>\<open>files_are_different\<close>: the child runs \<^verbatim>\<open>diff -q\<close> with its standard output discarded,
  or reports the failed \<^verbatim>\<open>execl\<close> and exits with 1. The parent takes the status word from
  \<^verbatim>\<open>waitpid\<close> and returns \<^verbatim>\<open>WEXITSTATUS\<close> of it without asking \<^verbatim>\<open>WIFEXITED\<close>. After a
  failed \<^verbatim>\<open>fork\<close> the parent calls \<^verbatim>\<open>waitpid(-1, ...)\<close>; it has no child then, every
  earlier one was waited for, so the call fails and \<open>status\<close> is read uninitialised.
\<close>

definition files_are_different :: "world \<Rightarrow> path \<Rightarrow> path \<Rightarrow> fault + (nat \<times> event list)" where
  "files_are_different w src dst =
     (case diff_child w of
        Runs \<Rightarrow>
          (case diff_q w src dst of
             None \<Rightarrow> Inl NeverReturns
           | Some c \<Rightarrow>
               Inr (WEXITSTATUS (W_EXITCODE c 0), (if c = 2 then [DiffMessage] else [])))
      | ExecFails \<Rightarrow> Inr (WEXITSTATUS (W_EXITCODE 1 0), [PerrorExecDiff])
      | Killed \<Rightarrow> Inr (WEXITSTATUS (W_EXITCODE 0 SIGKILL), [])
      | NoFork \<Rightarrow> Inr (WEXITSTATUS (uninit_status w), []))"

text \<open>
  \<^verbatim>\<open>copy_file\<close>: the child runs \<^verbatim>\<open>cp\<close>, or reports the failed \<^verbatim>\<open>execl\<close> and exits; the
  parent waits with \<^verbatim>\<open>wait(NULL)\<close>, which discards the status word, and prints the same
  line whatever happened. \<open>copy_status\<close> is the status word the parent never reads;
  there is none after a failed \<^verbatim>\<open>fork\<close> and none of a child that never ends.
\<close>

definition copy_file :: "world \<Rightarrow> path \<Rightarrow> path \<Rightarrow> fault + (world \<times> event list)" where
  "copy_file w src dst =
     (case cp_child w of
        Runs \<Rightarrow>
          (case cp w src dst of
             None \<Rightarrow> Inl NeverReturns
           | Some (w', c) \<Rightarrow>
               Inr (w', (if c = 0 then [] else [CpMessage]) @ [Copied src dst]))
      | ExecFails \<Rightarrow> Inr (w, [PerrorExecCp, ChildFlush, Copied src dst])
      | Killed \<Rightarrow> Inr (w, [Copied src dst])
      | NoFork \<Rightarrow> Inr (w, [Copied src dst]))"

definition copy_status :: "world \<Rightarrow> path \<Rightarrow> path \<Rightarrow> nat option" where
  "copy_status w src dst =
     (case cp_child w of
        Runs \<Rightarrow> map_option (\<lambda>(w', c). W_EXITCODE c 0) (cp w src dst)
      | ExecFails \<Rightarrow> Some (W_EXITCODE 1 0)
      | Killed \<Rightarrow> Some (W_EXITCODE 0 SIGKILL)
      | NoFork \<Rightarrow> None)"

subsection \<open>\<^verbatim>\<open>mkdir_p\<close>\<close>

text \<open>
  The loop of \<^verbatim>\<open>mkdir_p\<close> walks the buffer from its second byte; at each separator it
  cuts the string there, calls \<^verbatim>\<open>mkdir\<close> on the prefix and restores the separator. The
  results of \<^verbatim>\<open>mkdir\<close> are ignored. \<open>pre\<close> is the part of the buffer before the pointer.
\<close>

fun mkdir_p_loop :: "world \<Rightarrow> string \<Rightarrow> string \<Rightarrow> world" where
  "mkdir_p_loop w pre [] = w"
| "mkdir_p_loop w pre (c # cs) =
     (if c = CHR ''/'' then mkdir_p_loop (fst (mkdir w pre)) (pre @ [c]) cs
      else mkdir_p_loop w (pre @ [c]) cs)"

text \<open>Lines 74 to 76: the buffer \<open>tmp\<close>, the path without one trailing separator.\<close>

definition mkdir_p_tmp :: "path \<Rightarrow> string" where
  "mkdir_p_tmp p = (if last p = CHR ''/'' then butlast p else p)"

text \<open>
  \<^verbatim>\<open>strncpy\<close> leaves the buffer without a terminator when the path has \<^verbatim>\<open>MAX_PATH\<close> bytes
  or more, and \<^verbatim>\<open>tmp[len - 1]\<close> is outside the buffer when the path is empty.
\<close>

definition mkdir_p :: "world \<Rightarrow> path \<Rightarrow> fault + world" where
  "mkdir_p w p =
     (if length p \<ge> MAX_PATH \<or> p = [] then Inl BufferOverrun
      else let tmp = mkdir_p_tmp p
           in Inr (fst (mkdir (mkdir_p_loop w (take 1 tmp) (drop 1 tmp)) tmp)))"

subsection \<open>\<^verbatim>\<open>main\<close>\<close>

text \<open>\<^verbatim>\<open>snprintf(buf, MAX_PATH, "%s/%s", root, name)\<close> keeps the first \<^verbatim>\<open>MAX_PATH - 1\<close> bytes.\<close>

definition snprintf_path :: "path \<Rightarrow> string \<Rightarrow> path" where
  "snprintf_path dir name = take (MAX_PATH - 1) (dir @ ''/'' @ name)"

text \<open>Lines 102 to 107: the destination is resolved, or created and used as given.\<close>

definition main_destination :: "world \<Rightarrow> string \<Rightarrow> fault + (world \<times> path \<times> event list)" where
  "main_destination w arg =
     (case realpath w arg of
        Some abs_dst \<Rightarrow>
          (if length abs_dst \<ge> MAX_PATH then Inl BufferOverrun else Inr (w, abs_dst, []))
      | None \<Rightarrow>
          (case mkdir_p w arg of
             Inl f \<Rightarrow> Inl f
           | Inr w' \<Rightarrow> Inr (w', arg, [CreatedDestination arg])))"

text \<open>
  Lines 126 to 138: the entries are read one by one; \<open>files\<close> is the array filled so
  far, and the loop is left as soon as it holds \<^verbatim>\<open>MAX_FILES\<close> names.
\<close>

fun main_collect :: "world \<Rightarrow> path \<Rightarrow> string list \<Rightarrow> string list \<Rightarrow> string list" where
  "main_collect w abs_src [] files = files"
| "main_collect w abs_src (d_name # entries) files =
     (if d_name = ''.'' \<or> d_name = ''..'' then main_collect w abs_src entries files
      else if is_regular_file w (snprintf_path abs_src d_name) then
        (if length (files @ [d_name]) \<ge> MAX_FILES then files @ [d_name]
         else main_collect w abs_src entries (files @ [d_name]))
      else main_collect w abs_src entries files)"

text \<open>Lines 146 to 163: the body of the processing loop, for one name.\<close>

definition main_sync_file ::
  "world \<Rightarrow> path \<Rightarrow> path \<Rightarrow> string \<Rightarrow> fault + (world \<times> event list)" where
  "main_sync_file w abs_src abs_dst name =
     (let src_file = snprintf_path abs_src name;
          dst_file = snprintf_path abs_dst name
      in if \<not> file_exists w dst_file then
           (case copy_file w src_file dst_file of
              Inl f \<Rightarrow> Inl f
            | Inr (w', evs) \<Rightarrow> Inr (w', NewFileFound name # evs))
         else
           (case files_are_different w src_file dst_file of
              Inl f \<Rightarrow> Inl f
            | Inr (different, evs) \<Rightarrow>
                if different = 0 then Inr (w, evs @ [Identical name])
                else if source_is_newer w src_file dst_file then
                  (case copy_file w src_file dst_file of
                     Inl f \<Rightarrow> Inl f
                   | Inr (w', evs') \<Rightarrow> Inr (w', evs @ NewerInSource name # evs'))
                else Inr (w, evs @ [NewerInDestination name])))"

fun main_sync :: "world \<Rightarrow> path \<Rightarrow> path \<Rightarrow> string list \<Rightarrow> fault + (world \<times> event list)" where
  "main_sync w abs_src abs_dst [] = Inr (w, [])"
| "main_sync w abs_src abs_dst (name # names) =
     (case main_sync_file w abs_src abs_dst name of
        Inl f \<Rightarrow> Inl f
      | Inr (w1, evs1) \<Rightarrow>
          (case main_sync w1 abs_src abs_dst names of
             Inl f \<Rightarrow> Inl f
           | Inr (w2, evs2) \<Rightarrow> Inr (w2, evs1 @ evs2)))"

text \<open>The candidate names in processing order: listed, then sorted.\<close>

definition candidates :: "world \<Rightarrow> path \<Rightarrow> path \<Rightarrow> string list" where
  "candidates w abs_src dp = qsort compare (main_collect w abs_src (readdir w dp) [])"

text \<open>
  The whole program: \<open>argv\<close> holds the program name and the arguments; the result is the
  exit code, what was written and the world left behind.
\<close>

definition main :: "world \<Rightarrow> string list \<Rightarrow> fault + (int \<times> event list \<times> world)" where
  "main w argv =
     (if length argv \<noteq> 3 then Inr (1, [Usage], w)
      else case realpath w (argv ! 1) of
        None \<Rightarrow> Inr (1, [SourceMissing (argv ! 1)], w)
      | Some abs_src \<Rightarrow>
         (if length abs_src \<ge> MAX_PATH then Inl BufferOverrun
          else case main_destination w (argv ! 2) of
            Inl f \<Rightarrow> Inl f
          | Inr (w1, abs_dst, evs1) \<Rightarrow>
             (case getcwd w1 MAX_PATH of
                None \<Rightarrow> Inr (1, evs1 @ [PerrorGetcwd], w1)
              | Some c \<Rightarrow>
                 (case opendir w1 abs_src of
                    None \<Rightarrow>
                      Inr (1, evs1 @ [WorkingDirectory c, Synchronizing abs_src abs_dst,
                                      PerrorOpendir], w1)
                  | Some dp \<Rightarrow>
                     (case main_sync w1 abs_src abs_dst (candidates w1 abs_src dp) of
                        Inl f \<Rightarrow> Inl f
                      | Inr (w2, evs2) \<Rightarrow>
                          Inr (0, evs1 @ [WorkingDirectory c, Synchronizing abs_src abs_dst]
                                  @ evs2 @ [Complete], w2))))))"

text \<open>The names a run collects from the source directory, before the sort.\<close>

definition main_listing :: "world \<Rightarrow> string list \<Rightarrow> string list" where
  "main_listing w argv =
     (case realpath w (argv ! 1) of
        None \<Rightarrow> []
      | Some abs_src \<Rightarrow>
         (case main_destination w (argv ! 2) of
            Inl f \<Rightarrow> []
          | Inr (w1, abs_dst, evs1) \<Rightarrow>
             (case opendir w1 abs_src of
                None \<Rightarrow> []
              | Some dp \<Rightarrow> main_collect w1 abs_src (readdir w1 dp) [])))"

subsection \<open>The decision algorithm as the specification words it\<close>

text \<open>
  Section 4.6 of the specification: no destination, Copy-New; equal contents,
  Skip-Identical; source strictly newer, Copy-Update; otherwise Skip-DestinationNewer.
  The two copying decisions are the ones that execute a transfer.
\<close>

definition engine_decision :: "bool \<Rightarrow> bool \<Rightarrow> bool \<Rightarrow> decision" where
  "engine_decision dst_exists contents_equal src_newer =
     (if \<not> dst_exists then Copy_New
      else if contents_equal then Skip_Identical
      else if src_newer then Copy_Update
      else Skip_DestinationNewer)"


subsection \<open>Sample worlds\<close>

text \<open>
  The sample worlds share everything but the file table: the working directory
  \<^verbatim>\<open>/home\<close>, the clock at 10, children that run, and room for 4096 bytes in a file.
\<close>

definition world_with :: "(path \<times> node) list \<Rightarrow> world" where
  "world_with tab =
     \<lparr>fs = tab, cwd = ''/home'', clock = 10, diff_child = Runs, cp_child = Runs,
      uninit = 0, uninit_status = 0, file_size_limit = 4096\<rparr>"

text \<open>
  A source directory read in the order \<^verbatim>\<open>b.txt\<close>, \<^verbatim>\<open>a.txt\<close>, \<^verbatim>\<open>c.txt\<close> and an empty
  destination; and the log and the world of a run on it.
\<close>

definition abc_world :: world where
  "abc_world =
     world_with
       [(''/'', Dir 0), (''/home'', Dir 0), (''/src'', Dir 1),
        (''/src/b.txt'', Reg ''bravo'' 5), (''/src/a.txt'', Reg ''alpha'' 7),
        (''/src/c.txt'', Reg ''charlie'' 5), (''/dst'', Dir 2)]"

definition abc_log :: "event list" where
  "abc_log =
     [WorkingDirectory ''/home'', Synchronizing ''/src'' ''/dst'',
      NewFileFound ''a.txt'', Copied ''/src/a.txt'' ''/dst/a.txt'',
      NewFileFound ''b.txt'', Copied ''/src/b.txt'' ''/dst/b.txt'',
      NewFileFound ''c.txt'', Copied ''/src/c.txt'' ''/dst/c.txt'',
      Complete]"

definition abc_after :: world where
  "abc_after =
     world_with
       [(''/'', Dir 0), (''/home'', Dir 0), (''/src'', Dir 1),
        (''/src/b.txt'', Reg ''bravo'' 5), (''/src/a.txt'', Reg ''alpha'' 7),
        (''/src/c.txt'', Reg ''charlie'' 5), (''/dst'', Dir 10),
        (''/dst/a.txt'', Reg ''alpha'' 10), (''/dst/b.txt'', Reg ''bravo'' 10),
        (''/dst/c.txt'', Reg ''charlie'' 10)]"

text \<open>
  A source and a destination with one file for each decision: \<^verbatim>\<open>a.txt\<close> differs and is
  newer in the source, \<^verbatim>\<open>b.txt\<close> is new, \<^verbatim>\<open>c.txt\<close> is identical, \<^verbatim>\<open>d.txt\<close> differs and
  is newer in the destination; and the log and the world of a run on it.
\<close>

definition sample_world :: world where
  "sample_world =
     world_with
       [(''/'', Dir 0), (''/home'', Dir 0), (''/src'', Dir 1),
        (''/src/b.txt'', Reg ''bravo'' 5), (''/src/a.txt'', Reg ''alpha'' 7),
        (''/src/c.txt'', Reg ''charlie'' 5), (''/src/d.txt'', Reg ''delta'' 1),
        (''/dst'', Dir 2), (''/dst/a.txt'', Reg ''old'' 3),
        (''/dst/c.txt'', Reg ''charlie'' 9), (''/dst/d.txt'', Reg ''DELTA'' 2)]"

definition sample_log :: "event list" where
  "sample_log =
     [WorkingDirectory ''/home'', Synchronizing ''/src'' ''/dst'',
      NewerInSource ''a.txt'', Copied ''/src/a.txt'' ''/dst/a.txt'',
      NewFileFound ''b.txt'', Copied ''/src/b.txt'' ''/dst/b.txt'',
      Identical ''c.txt'', NewerInDestination ''d.txt'', Complete]"

definition sample_after :: world where
  "sample_after =
     world_with
       [(''/'', Dir 0), (''/home'', Dir 0), (''/src'', Dir 1),
        (''/src/b.txt'', Reg ''bravo'' 5), (''/src/a.txt'', Reg ''alpha'' 7),
        (''/src/c.txt'', Reg ''charlie'' 5), (''/src/d.txt'', Reg ''delta'' 1),
        (''/dst'', Dir 10), (''/dst/a.txt'', Reg ''alpha'' 10),
        (''/dst/c.txt'', Reg ''charlie'' 9), (''/dst/d.txt'', Reg ''DELTA'' 2),
        (''/dst/b.txt'', Reg ''bravo'' 10)]"




subsection \<open>Notions used in the statements\<close>

text \<open>Everything of a world but its file table.\<close>

definition env_of :: "world \<Rightarrow> world" where
  "env_of w = w\<lparr>fs := []\<rparr>"

text \<open>A table whose keys are absolute paths, and a world whose working directory is one too.\<close>

definition absolute :: "path \<Rightarrow> bool" where
  "absolute p = (p \<noteq> [] \<and> hd p = CHR ''/'')"







text \<open>
  A destination holding an older \<^verbatim>\<open>a.txt\<close>, on a device where the write that brings a
  file to two bytes fails; the same with room; and the logs and the worlds of the runs on
  them.
\<close>

definition tight_world :: world where
  "tight_world =
     (world_with
        [(''/'', Dir 0), (''/home'', Dir 0), (''/src'', Dir 1),
         (''/src/a.txt'', Reg ''alpha'' 7), (''/dst'', Dir 2),
         (''/dst/a.txt'', Reg ''old'' 3)])
     \<lparr>file_size_limit := 2\<rparr>"

definition roomy_world :: world where
  "roomy_world = tight_world\<lparr>file_size_limit := 4096\<rparr>"

definition tight_log :: "event list" where
  "tight_log =
     [WorkingDirectory ''/home'', Synchronizing ''/src'' ''/dst'',
      NewerInSource ''a.txt'', CpMessage, Copied ''/src/a.txt'' ''/dst/a.txt'', Complete]"

definition roomy_log :: "event list" where
  "roomy_log =
     [WorkingDirectory ''/home'', Synchronizing ''/src'' ''/dst'',
      NewerInSource ''a.txt'', Copied ''/src/a.txt'' ''/dst/a.txt'', Complete]"

definition tight_after :: world where
  "tight_after =
     (world_with
        [(''/'', Dir 0), (''/home'', Dir 0), (''/src'', Dir 1),
         (''/src/a.txt'', Reg ''alpha'' 7), (''/dst'', Dir 2),
         (''/dst/a.txt'', Reg ''al'' 10)])
     \<lparr>file_size_limit := 2\<rparr>"

definition roomy_after :: world where
  "roomy_after =
     world_with
       [(''/'', Dir 0), (''/home'', Dir 0), (''/src'', Dir 1),
        (''/src/a.txt'', Reg ''alpha'' 7), (''/dst'', Dir 2),
        (''/dst/a.txt'', Reg ''alpha'' 10)]"

text \<open>
  The prefixes on which the loop of \<^verbatim>\<open>mkdir_p\<close> calls \<^verbatim>\<open>mkdir\<close>, in order, and a world
  after \<^verbatim>\<open>mkdir\<close> was called on each path of a list.
\<close>

fun attempts :: "string \<Rightarrow> string \<Rightarrow> string list" where
  "attempts pre [] = []"
| "attempts pre (c # cs) =
     (if c = CHR ''/'' then pre # attempts (pre @ [c]) cs else attempts (pre @ [c]) cs)"

definition mkdir_all :: "world \<Rightarrow> string list \<Rightarrow> world" where
  "mkdir_all w qs = foldl (\<lambda>w q. fst (mkdir w q)) w qs"

text \<open>The paths on which \<^verbatim>\<open>mkdir_p\<close> calls \<^verbatim>\<open>mkdir\<close>, in order.\<close>

definition mkdir_p_paths :: "path \<Rightarrow> string list" where
  "mkdir_p_paths p = attempts (take 1 (mkdir_p_tmp p)) (drop 1 (mkdir_p_tmp p)) @ [mkdir_p_tmp p]"

text \<open>A call of \<^verbatim>\<open>mkdir\<close> that fails: the path is empty or bound, or its parent is no directory.\<close>

definition mkdir_fails :: "world \<Rightarrow> path \<Rightarrow> bool" where
  "mkdir_fails w q =
     (q = [] \<or> map_of (fs w) (abspath w q) \<noteq> None \<or>
      (case map_of (fs w) (dirname (abspath w q)) of Some (Dir t) \<Rightarrow> False | _ \<Rightarrow> True))"

text \<open>The world of \<open>abc_world\<close> after the destination \<^verbatim>\<open>out/sub\<close> was created.\<close>

definition abc_made :: world where
  "abc_made =
     world_with
       [(''/'', Dir 0), (''/home'', Dir 10), (''/src'', Dir 1),
        (''/src/b.txt'', Reg ''bravo'' 5), (''/src/a.txt'', Reg ''alpha'' 7),
        (''/src/c.txt'', Reg ''charlie'' 5), (''/dst'', Dir 2),
        (''/home/out'', Dir 10), (''/home/out/sub'', Dir 10)]"

text \<open>A path below a directory, as strings.\<close>

definition under :: "path \<Rightarrow> path \<Rightarrow> bool" where
  "under dir k = (take (length dir + 1) k = dir @ ''/'')"

text \<open>A destination directory inside the source directory, and the run on it.\<close>

definition nested_world :: world where
  "nested_world =
     world_with
       [(''/'', Dir 0), (''/home'', Dir 0), (''/src'', Dir 1),
        (''/src/a.txt'', Reg ''alpha'' 7), (''/src/backup'', Dir 2)]"

definition nested_log :: "event list" where
  "nested_log =
     [WorkingDirectory ''/home'', Synchronizing ''/src'' ''/src/backup'',
      NewFileFound ''a.txt'', Copied ''/src/a.txt'' ''/src/backup/a.txt'', Complete]"

definition nested_after :: world where
  "nested_after =
     world_with
       [(''/'', Dir 0), (''/home'', Dir 0), (''/src'', Dir 1),
        (''/src/a.txt'', Reg ''alpha'' 7), (''/src/backup'', Dir 10),
        (''/src/backup/a.txt'', Reg ''alpha'' 10)]"

text \<open>
  A node that is kept: it is the same, or it is a directory before and after (with the
  modification time it had or a new one).
\<close>

definition kept :: "node \<Rightarrow> node \<Rightarrow> bool" where
  "kept nd nd' = (nd' = nd \<or> (S_ISDIR nd \<and> S_ISDIR nd'))"






section \<open>Properties\<close>

subsection \<open>The order of \<^verbatim>\<open>strcmp\<close>\<close>

lemma ord_zero: "(int (of_char x) \<le> 0) = (x = CHR 0x00)"
proof -
  have "(of_char x :: nat) = of_char (CHR 0x00) \<longleftrightarrow> x = CHR 0x00"
    by (rule of_char_eq_iff)
  then show ?thesis by simp
qed

lemma ord_zero_nat: "((of_char x :: nat) = 0) = (x = CHR 0x00)"
  using ord_zero [of x] by simp

lemma ord_strict:
  assumes "x \<noteq> y" and "int (of_char x) - int (of_char y) \<le> 0"
  shows "int (of_char x) < int (of_char y)"
proof -
  from assms(1) have "(of_char x :: nat) \<noteq> of_char y"
    by (simp only: of_char_eq_iff not_False_eq_True)
  with assms(2) show ?thesis by linarith
qed

lemma strcmp_swap: "strcmp b a = - strcmp a b"
  by (induction a b rule: strcmp.induct) auto

lemma strcmp_trans: "strcmp a b \<le> 0 \<Longrightarrow> strcmp b c \<le> 0 \<Longrightarrow> strcmp a c \<le> 0"
proof (induction a b arbitrary: c rule: strcmp.induct)
  case 1
  then show ?case by simp
next
  case (2 y ys)
  then show ?case by (cases c) auto
next
  case (3 x xs)
  then have x0: "x = CHR 0x00" by (simp add: ord_zero_nat)
  show ?case
  proof (cases c)
    case Nil
    with x0 show ?thesis by simp
  next
    case (Cons z zs)
    with x0 show ?thesis by simp
  qed
next
  case (4 x xs y ys)
  show ?case
  proof (cases c)
    case Nil
    with 4(3) have y0: "y = CHR 0x00" by (simp add: ord_zero_nat)
    with 4(2) have "x = CHR 0x00" by (simp add: ord_zero_nat split: if_splits)
    with Nil show ?thesis by simp
  next
    case (Cons z zs)
    show ?thesis
    proof (cases "x = y")
      case xy: True
      show ?thesis
      proof (cases "y = z")
        case True
        with xy 4 Cons show ?thesis by (simp split: if_splits)
      next
        case False
        with xy 4(3) Cons show ?thesis by (simp split: if_splits)
      qed
    next
      case xy: False
      show ?thesis
      proof (cases "y = z")
        case True
        with xy 4(2) Cons show ?thesis by (simp split: if_splits)
      next
        case False
        from xy 4(2) have "int (of_char x) - int (of_char y) \<le> 0" by simp
        with xy have "int (of_char x) < int (of_char y)" by (rule ord_strict)
        moreover from False 4(3) Cons have "int (of_char y) - int (of_char z) \<le> 0" by simp
        with False have "int (of_char y) < int (of_char z)" by (rule ord_strict)
        ultimately have "int (of_char x) < int (of_char z)" by linarith
        then have "x \<noteq> z" by auto
        with \<open>int (of_char x) < int (of_char z)\<close> Cons show ?thesis by simp
      qed
    qed
  qed
qed

lemma compare_total: "compare a b \<le> 0 \<or> compare b a \<le> 0"
  using strcmp_swap [of b a] unfolding compare_def by linarith

lemma compare_trans: "compare a b \<le> 0 \<Longrightarrow> compare b c \<le> 0 \<Longrightarrow> compare a c \<le> 0"
  unfolding compare_def by (rule strcmp_trans)

subsection \<open>The sort\<close>

lemma set_qsort_insert: "set (qsort_insert cmp x xs) = insert x (set xs)"
  by (induction xs) auto

lemma mset_qsort_insert: "mset (qsort_insert cmp x xs) = add_mset x (mset xs)"
  by (induction xs) auto

lemma sorted_qsort_insert:
  assumes "sorted_wrt (\<lambda>a b. compare a b \<le> 0) xs"
  shows "sorted_wrt (\<lambda>a b. compare a b \<le> 0) (qsort_insert compare x xs)"
  using assms
proof (induction xs)
  case Nil
  then show ?case by simp
next
  case (Cons y ys)
  show ?case
  proof (cases "compare x y \<le> 0")
    case True
    have "compare x z \<le> 0" if "z \<in> set ys" for z
    proof -
      from Cons.prems that have "compare y z \<le> 0" by simp
      with True show ?thesis by (rule compare_trans)
    qed
    with True Cons.prems show ?thesis by simp
  next
    case False
    with compare_total [of x y] have "compare y x \<le> 0" by simp
    with False Cons show ?thesis by (simp add: set_qsort_insert)
  qed
qed

lemma sorted_qsort: "sorted_wrt (\<lambda>a b. compare a b \<le> 0) (qsort compare xs)"
  unfolding qsort_def by (induction xs) (simp_all add: sorted_qsort_insert)

lemma mset_qsort: "mset (qsort cmp xs) = mset xs"
  unfolding qsort_def by (induction xs) (simp_all add: mset_qsort_insert)


subsection \<open>One decision line for each file\<close>

lemma decisions_Nil: "decisions [] = []"
  by (simp add: decisions_def map_filter_simps)

lemma decisions_Cons:
  "decisions (e # evs) =
     (case decision_of e of None \<Rightarrow> decisions evs | Some d \<Rightarrow> d # decisions evs)"
  by (simp add: decisions_def map_filter_simps split: option.splits)

lemma decisions_append: "decisions (xs @ ys) = decisions xs @ decisions ys"
  by (induction xs) (simp_all add: decisions_Nil decisions_Cons split: option.splits)

lemma decisions_copy_file: "copy_file w s d = Inr (w', evs) \<Longrightarrow> decisions evs = []"
  by (auto simp: copy_file_def decisions_Nil decisions_Cons decisions_append
      split: child.splits option.splits if_splits)

lemma decisions_files_are_different:
  "files_are_different w s d = Inr (c, evs) \<Longrightarrow> decisions evs = []"
  by (auto simp: files_are_different_def decisions_Nil decisions_Cons
      split: child.splits option.splits if_splits)

text \<open>The four ways through the body of the loop.\<close>

lemma main_sync_file_cases:
  assumes "main_sync_file w s d n = Inr (w', evs)"
  obtains
    (new) evs' where "\<not> file_exists w (snprintf_path d n)"
      and "copy_file w (snprintf_path s n) (snprintf_path d n) = Inr (w', evs')"
      and "evs = NewFileFound n # evs'"
  | (identical) evs0 where "file_exists w (snprintf_path d n)"
      and "files_are_different w (snprintf_path s n) (snprintf_path d n) = Inr (0, evs0)"
      and "w' = w" and "evs = evs0 @ [Identical n]"
  | (update) c evs0 evs' where "file_exists w (snprintf_path d n)"
      and "files_are_different w (snprintf_path s n) (snprintf_path d n) = Inr (c, evs0)"
      and "c \<noteq> 0" and "source_is_newer w (snprintf_path s n) (snprintf_path d n)"
      and "copy_file w (snprintf_path s n) (snprintf_path d n) = Inr (w', evs')"
      and "evs = evs0 @ NewerInSource n # evs'"
  | (older) c evs0 where "file_exists w (snprintf_path d n)"
      and "files_are_different w (snprintf_path s n) (snprintf_path d n) = Inr (c, evs0)"
      and "c \<noteq> 0" and "\<not> source_is_newer w (snprintf_path s n) (snprintf_path d n)"
      and "w' = w" and "evs = evs0 @ [NewerInDestination n]"
  using assms
  by (auto simp: main_sync_file_def Let_def split: if_splits sum.splits prod.splits)

lemma main_sync_file_decision:
  assumes "main_sync_file w s d n = Inr (w', evs)"
  shows "\<exists>c. decisions evs =
     [(n, engine_decision (file_exists w (snprintf_path d n)) (c = (0::nat))
            (source_is_newer w (snprintf_path s n) (snprintf_path d n)))] \<and>
     (file_exists w (snprintf_path d n) \<longrightarrow>
        (\<exists>evs0. files_are_different w (snprintf_path s n) (snprintf_path d n) = Inr (c, evs0)))"
  using assms
proof (cases rule: main_sync_file_cases)
  case (new evs')
  then show ?thesis
    by (simp add: decisions_Cons decisions_copy_file engine_decision_def)
next
  case (identical evs0)
  then show ?thesis
    by (auto simp: decisions_append decisions_Cons decisions_Nil engine_decision_def
        decisions_files_are_different)
next
  case (update c evs0 evs')
  then show ?thesis
    by (auto simp: decisions_append decisions_Cons decisions_Nil engine_decision_def
        decisions_files_are_different decisions_copy_file)
next
  case (older c evs0)
  then show ?thesis
    by (auto simp: decisions_append decisions_Cons decisions_Nil engine_decision_def
        decisions_files_are_different)
qed

lemma main_sync_file_name:
  assumes "main_sync_file w s d n = Inr (w', evs)"
  shows "map fst (decisions evs) = [n]"
  using main_sync_file_decision [OF assms] by auto

lemma main_sync_Cons:
  assumes "main_sync w s d (n # ns) = Inr (w', evs)"
  obtains w1 evs1 evs2 where "main_sync_file w s d n = Inr (w1, evs1)"
    and "main_sync w1 s d ns = Inr (w', evs2)" and "evs = evs1 @ evs2"
  using assms by (auto split: sum.splits prod.splits)

lemma main_sync_names:
  "main_sync w s d ns = Inr (w', evs) \<Longrightarrow> map fst (decisions evs) = ns"
proof (induction ns arbitrary: w evs)
  case Nil
  then show ?case by (simp add: decisions_Nil)
next
  case (Cons n ns)
  from Cons.prems obtain w1 evs1 evs2 where
    1: "main_sync_file w s d n = Inr (w1, evs1)" and
    2: "main_sync w1 s d ns = Inr (w', evs2)" and e: "evs = evs1 @ evs2"
    by (rule main_sync_Cons)
  from 1 have "map fst (decisions evs1) = [n]" by (rule main_sync_file_name)
  moreover from 2 have "map fst (decisions evs2) = ns" by (rule Cons.IH)
  ultimately show ?case using e by (simp add: decisions_append)
qed

subsection \<open>The shape of a run\<close>

lemma decisions_main_destination:
  "main_destination w arg = Inr (w1, abs_dst, evs1) \<Longrightarrow> decisions evs1 = []"
  by (auto simp: main_destination_def decisions_Nil decisions_Cons
      split: option.splits sum.splits if_splits)

lemma main_exit0E:
  assumes "main w argv = Inr (0, evs, w')"
  obtains abs_src w1 abs_dst evs1 c dp evs2 where
    "length argv = 3" and "realpath w (argv ! 1) = Some abs_src" and
    "length abs_src < MAX_PATH" and
    "main_destination w (argv ! 2) = Inr (w1, abs_dst, evs1)" and
    "getcwd w1 MAX_PATH = Some c" and "opendir w1 abs_src = Some dp" and
    "main_sync w1 abs_src abs_dst (candidates w1 abs_src dp) = Inr (w', evs2)" and
    "evs = evs1 @ [WorkingDirectory c, Synchronizing abs_src abs_dst] @ evs2 @ [Complete]"
  using assms
  by (auto simp: main_def split: if_splits option.splits sum.splits prod.splits)

subsection \<open>Evaluations on the sample worlds\<close>

lemma abc_run: "main abc_world [''file_sync'', ''/src'', ''/dst''] = Inr (0, abc_log, abc_after)"
  by code_simp

lemma abc_listing:
  "main_listing abc_world [''file_sync'', ''/src'', ''/dst''] = [''b.txt'', ''a.txt'', ''c.txt'']"
  by code_simp

lemma abc_decisions:
  "decisions abc_log = [(''a.txt'', Copy_New), (''b.txt'', Copy_New), (''c.txt'', Copy_New)]"
  by code_simp

lemma sample_run:
  "main sample_world [''file_sync'', ''/src'', ''/dst''] = Inr (0, sample_log, sample_after)"
  by code_simp


lemma sample_stat_src_a: "stat sample_world ''/src/a.txt'' = Some (Reg ''alpha'' 7)"
  by code_simp
lemma sample_stat_dst_a: "stat sample_world ''/dst/a.txt'' = Some (Reg ''old'' 3)"
  by code_simp
lemma sample_stat_src_b: "stat sample_world ''/src/b.txt'' = Some (Reg ''bravo'' 5)"
  by code_simp
lemma sample_stat_src_c: "stat sample_world ''/src/c.txt'' = Some (Reg ''charlie'' 5)"
  by code_simp

subsection \<open>What the comparators return on existing files\<close>


lemma W_EXITCODE_zero: "c < 256 \<Longrightarrow> (W_EXITCODE c 0 = 0) = (c = 0)"
  by (simp add: W_EXITCODE_def)


lemma stat_mtime_Some: "stat w p = Some nd \<Longrightarrow> stat_mtime w p = st_mtime nd"
  by (simp add: stat_mtime_def)


subsection \<open>The collecting loop\<close>







subsection \<open>The file table under \<^verbatim>\<open>mkdir\<close>\<close>

lemma map_of_store:
  "map_of (store k nd tab) k' = (if k' = k then Some nd else map_of tab k')"
  by (induction tab) auto

lemma map_of_touch:
  "map_of (touch k now tab) k' =
     (if k' = k then (case map_of tab k of Some (Dir t) \<Rightarrow> Some (Dir now) | x \<Rightarrow> x)
      else map_of tab k')"
  by (induction tab) (auto split: node.splits)

lemma map_of_add_entry:
  "map_of (fs (add_entry w k nd)) k' =
     (if k' = k then Some nd
      else if k' = dirname k then
        (case map_of (fs w) k' of Some (Dir t) \<Rightarrow> Some (Dir (clock w)) | x \<Rightarrow> x)
      else map_of (fs w) k')"
  by (simp add: add_entry_def map_of_store map_of_touch)



lemma kept_Dir: "kept (Dir t) nd' = S_ISDIR nd'"
  by (cases nd') (auto simp: kept_def)

lemma kept_other: "\<not> S_ISDIR nd \<Longrightarrow> kept nd nd' = (nd' = nd)"
  by (auto simp: kept_def)

lemma kept_Symlink: "kept nd (Symlink t) = (nd = Symlink t)"
  by (auto simp: kept_def)



lemma env_of_fs_update: "env_of (w\<lparr>fs := tab\<rparr>) = env_of w"
  by (simp add: env_of_def)

lemma add_entry_env: "env_of (add_entry w k nd) = env_of w"
  by (simp add: add_entry_def env_of_fs_update)











subsection \<open>Following links\<close>

lemma follow_end:
  "follow n tab k = Some (k', nd) \<Longrightarrow> map_of tab k' = Some nd \<and> (\<forall>t. nd \<noteq> Symlink t)"
  by (induction n tab k rule: follow.induct) (auto split: option.splits node.splits)

lemma follow_at_end:
  "map_of tab k = Some nd \<Longrightarrow> (\<forall>t. nd \<noteq> Symlink t) \<Longrightarrow> follow (Suc n) tab k = Some (k, nd)"
  by (cases nd) simp_all


lemma abspath_absolute: "absolute p \<Longrightarrow> abspath w p = p"
  by (simp add: abspath_def absolute_def)

lemma abspath_is_absolute: "absolute (cwd w) \<Longrightarrow> absolute (abspath w p)"
  by (cases "cwd w") (auto simp: abspath_def absolute_def)


text \<open>What \<^verbatim>\<open>realpath\<close> returns is a key bound to a node that is not a link.\<close>

lemma resolve_follow:
  "resolve w p = Some r \<Longrightarrow> p \<noteq> [] \<and> follow (Suc MAXSYMLINKS) (fs w) (abspath w p) = Some r"
  by (simp add: resolve_def del: follow.simps split: if_splits)











subsection \<open>The file table under \<^verbatim>\<open>cp\<close>\<close>

lemma follow_store_end:
  assumes "\<forall>t. nd' \<noteq> Symlink t"
  shows "follow n tab k = Some (kb, nd) \<Longrightarrow> follow n (store kb nd' tab) k = Some (kb, nd')"
proof (induction n arbitrary: k)
  case 0
  then show ?case by simp
next
  case (Suc n)
  from Suc.prems have e: "map_of tab kb = Some nd \<and> (\<forall>t. nd \<noteq> Symlink t)"
    by (rule follow_end)
  from Suc.prems obtain x where x: "map_of tab k = Some x"
    by (cases "map_of tab k") auto
  show ?case
  proof (cases x)
    case (Symlink t)
    with x e have "k \<noteq> kb" by auto
    moreover from x Symlink Suc.prems have "follow n tab t = Some (kb, nd)" by simp
    then have "follow n (store kb nd' tab) t = Some (kb, nd')" by (rule Suc.IH)
    ultimately show ?thesis using x Symlink by (simp add: map_of_store)
  next
    case (Reg c t)
    with x Suc.prems have "k = kb" by simp
    with assms show ?thesis by (cases nd') (simp_all add: map_of_store)
  next
    case (Dir t)
    with x Suc.prems have "k = kb" by simp
    with assms show ?thesis by (cases nd') (simp_all add: map_of_store)
  next
    case (Fifo t)
    with x Suc.prems have "k = kb" by simp
    with assms show ?thesis by (cases nd') (simp_all add: map_of_store)
  qed
qed

text \<open>The three outcomes of a \<^verbatim>\<open>cp\<close> that exits.\<close>

lemma cp_cases:
  assumes "cp w a b = Some (w', st)"
  obtains
    (refused) "w' = w" and "st = 1"
  | (over) ka ca ta kb cb tb where "resolve w a = Some (ka, Reg ca ta)"
      and "resolve w (cp_target w a b) = Some (kb, Reg cb tb)" and "kb \<noteq> ka"
      and "w' = w\<lparr>fs := store kb (Reg (fst (cp_bytes w ca)) (clock w)) (fs w)\<rparr>"
      and "st = snd (cp_bytes w ca)"
  | (create) ka ca ta td where "resolve w a = Some (ka, Reg ca ta)"
      and "resolve w (cp_target w a b) = None" and "cp_target w a b \<noteq> []"
      and "map_of (fs w) (abspath w (cp_target w a b)) = None"
      and "map_of (fs w) (dirname (abspath w (cp_target w a b))) = Some (Dir td)"
      and "w' = add_entry w (abspath w (cp_target w a b)) (Reg (fst (cp_bytes w ca)) (clock w))"
      and "st = snd (cp_bytes w ca)"
proof (cases "w' = w \<and> st = 1")
  case True
  then show ?thesis by (intro refused) simp_all
next
  case False
  from assms obtain ka ca ta where a: "resolve w a = Some (ka, Reg ca ta)"
    using False by (auto simp: cp_def split: option.splits node.splits prod.splits)
  show ?thesis
  proof (cases "resolve w (cp_target w a b)")
    case None
    with assms a False have 1: "cp_target w a b \<noteq> []"
      and 2: "lstat w (cp_target w a b) = None"
      by (auto simp: cp_def Let_def split: if_splits)
    from 1 2 have 3: "map_of (fs w) (abspath w (cp_target w a b)) = None"
      by (simp add: lstat_def)
    from assms a None 1 2 False obtain td where
      4: "map_of (fs w) (dirname (abspath w (cp_target w a b))) = Some (Dir td)"
      by (auto simp: cp_def Let_def split: option.splits node.splits)
    from assms a None 1 2 4 have
      "w' = add_entry w (abspath w (cp_target w a b)) (Reg (fst (cp_bytes w ca)) (clock w))"
      and "st = snd (cp_bytes w ca)"
      by (auto simp: cp_def Let_def)
    with a None 1 3 4 show ?thesis by (intro create)
  next
    case (Some r)
    with assms a False obtain kb cb tb where r: "r = (kb, Reg cb tb)"
      by (cases r) (auto simp: cp_def Let_def split: node.splits)
    with assms a Some False have "kb \<noteq> ka"
      and "w' = w\<lparr>fs := store kb (Reg (fst (cp_bytes w ca)) (clock w)) (fs w)\<rparr>"
      and "st = snd (cp_bytes w ca)"
      by (auto simp: cp_def Let_def split: if_splits)
    with a Some r show ?thesis by (intro over) simp_all
  qed
qed

lemma cp_env: "cp w a b = Some (w', st) \<Longrightarrow> env_of w' = env_of w"
  by (erule cp_cases) (simp_all add: env_of_fs_update add_entry_env)

lemma cp_bytes_cases:
  "cp_bytes w c = (c, 0) \<and> length c < file_size_limit w \<or>
   cp_bytes w c = (take (file_size_limit w) c, 1) \<and> file_size_limit w \<le> length c"
  by (simp add: cp_bytes_def)

lemma cp_status_le: "cp w a b = Some (w', st) \<Longrightarrow> st \<le> 1"
  by (erule cp_cases) (simp_all add: cp_bytes_def)

lemma copy_file_env: "copy_file w a b = Inr (w', evs) \<Longrightarrow> env_of w' = env_of w"
  by (auto simp: copy_file_def cp_env split: child.splits option.splits)

text \<open>A copy that returns left the world as it was, or \<^verbatim>\<open>cp\<close> ran and exited.\<close>

lemma copy_file_cases:
  assumes "copy_file w a b = Inr (w', evs)"
  obtains (same) "w' = w" and "cp_child w \<noteq> Runs" and "copy_status w a b \<noteq> Some 0"
  | (ran) st where "cp_child w = Runs" and "cp w a b = Some (w', st)"
      and "copy_status w a b = Some (W_EXITCODE st 0)"
      and "evs = (if st = 0 then [] else [CpMessage]) @ [Copied a b]"
proof (cases "cp_child w = Runs")
  case True
  with assms obtain st where "cp w a b = Some (w', st)"
    and "evs = (if st = 0 then [] else [CpMessage]) @ [Copied a b]"
    by (auto simp: copy_file_def split: option.splits)
  with True show ?thesis by (intro ran [of st]) (simp_all add: copy_status_def)
next
  case False
  with assms have "w' = w" by (auto simp: copy_file_def split: child.splits)
  moreover from False have "copy_status w a b \<noteq> Some 0"
    by (auto simp: copy_status_def W_EXITCODE_def SIGKILL_def split: child.splits)
  ultimately show ?thesis using False by (intro same)
qed

lemma copy_status_zero:
  "(copy_status w a b = Some 0) = (cp_child w = Runs \<and> (\<exists>w'. cp w a b = Some (w', 0)))"
proof (cases "cp_child w = Runs")
  case False
  then show ?thesis
    by (auto simp: copy_status_def W_EXITCODE_def SIGKILL_def split: child.splits)
next
  case True
  show ?thesis
  proof (cases "cp w a b")
    case None
    with True show ?thesis by (simp add: copy_status_def)
  next
    case (Some r)
    obtain w' st where r: "r = (w', st)" by (cases r)
    with Some have "st \<le> 1" by (auto dest: cp_status_le)
    then have "(W_EXITCODE st 0 = 0) = (st = 0)" by (simp add: W_EXITCODE_zero)
    with True Some r show ?thesis by (simp add: copy_status_def)
  qed
qed

text \<open>
  What \<^verbatim>\<open>cp\<close> does to a destination that is absent or a regular file: it exits; it
  failed and changed nothing, or it stored the source's bytes, or as many as the size
  limit allows, under the key the destination leads to.
\<close>

lemma stat_after_store:
  assumes "resolve w b = Some (kb, nd)" and "\<forall>t. nd' \<noteq> Symlink t"
  shows "stat (w\<lparr>fs := store kb nd' (fs w)\<rparr>) b = Some nd'"
proof -
  from assms(1) have b: "b \<noteq> []"
    and f: "follow (Suc MAXSYMLINKS) (fs w) (abspath w b) = Some (kb, nd)"
    using resolve_follow by blast+
  from assms(2) f
  have "follow (Suc MAXSYMLINKS) (store kb nd' (fs w)) (abspath w b) = Some (kb, nd')"
    by (rule follow_store_end)
  moreover have "abspath (w\<lparr>fs := store kb nd' (fs w)\<rparr>) b = abspath w b"
    by (simp add: abspath_def)
  ultimately show ?thesis using b by (simp add: stat_def resolve_def del: follow.simps)
qed

lemma stat_after_add_entry:
  assumes "b \<noteq> []" and "\<forall>t. nd' \<noteq> Symlink t"
  shows "stat (add_entry w (abspath w b) nd') b = Some nd'"
proof -
  have "map_of (fs (add_entry w (abspath w b) nd')) (abspath w b) = Some nd'"
    by (simp add: map_of_add_entry)
  with assms(2)
  have "follow (Suc MAXSYMLINKS) (fs (add_entry w (abspath w b) nd')) (abspath w b) =
      Some (abspath w b, nd')"
    by (intro follow_at_end)
  moreover have "abspath (add_entry w (abspath w b) nd') b = abspath w b"
    by (simp add: abspath_def add_entry_def)
  ultimately show ?thesis using assms(1) by (simp add: stat_def resolve_def del: follow.simps)
qed

lemma cp_target_plain:
  "stat w b = None \<or> stat w b = Some (Reg c' t') \<Longrightarrow> cp_target w a b = b"
  by (auto simp: cp_target_def)

lemma cp_plain:
  assumes "stat w a = Some (Reg c t)"
    and "stat w b = None \<or> stat w b = Some (Reg c' t')"
  shows "\<exists>w' st. cp w a b = Some (w', st) \<and>
         ((st = 1 \<and> w' = w) \<or>
          (st = snd (cp_bytes w c) \<and> stat w' b = Some (Reg (fst (cp_bytes w c)) (clock w))))"
proof -
  from assms(1) obtain ka where a: "resolve w a = Some (ka, Reg c t)"
    by (auto simp: stat_def)
  from assms(2) have tgt: "cp_target w a b = b" by (rule cp_target_plain)
  from assms(2) have "resolve w b = None \<or> (\<exists>kb. resolve w b = Some (kb, Reg c' t'))"
    by (auto simp: stat_def)
  with a tgt have "cp w a b \<noteq> None"
    by (auto simp: cp_def Let_def split: option.splits node.splits)
  then obtain w' st where c: "cp w a b = Some (w', st)"
    by (cases "cp w a b") auto
  from c show ?thesis
  proof (cases rule: cp_cases)
    case refused
    with c show ?thesis by simp
  next
    case (over ka' ca ta kb cb tb)
    from over(1) a have ca: "ca = c" by simp
    from over(2) tgt have "resolve w b = Some (kb, Reg cb tb)" by simp
    then have "stat (w\<lparr>fs := store kb (Reg (fst (cp_bytes w c)) (clock w)) (fs w)\<rparr>) b =
        Some (Reg (fst (cp_bytes w c)) (clock w))"
      by (rule stat_after_store) simp
    with over(4,5) ca c show ?thesis by simp
  next
    case (create ka' ca ta td)
    from create(1) a have ca: "ca = c" by simp
    from create(3) tgt have "b \<noteq> []" by simp
    then have "stat (add_entry w (abspath w b) (Reg (fst (cp_bytes w c)) (clock w))) b =
        Some (Reg (fst (cp_bytes w c)) (clock w))"
      by (rule stat_after_add_entry) simp
    with create(6,7) ca tgt c show ?thesis by simp
  qed
qed

text \<open>The copy of a regular file onto an absent or regular destination returns.\<close>

lemma copy_file_plain:
  assumes "stat w a = Some (Reg c t)"
    and "stat w b = None \<or> stat w b = Some (Reg c' t')"
  shows "\<exists>w' evs. copy_file w a b = Inr (w', evs) \<and>
         (copy_status w a b = Some 0 \<longrightarrow> stat w' b = Some (Reg c (clock w))) \<and>
         (copy_status w a b \<noteq> Some 0 \<longrightarrow>
            w' = w \<or> stat w' b = Some (Reg (take (file_size_limit w) c) (clock w)))"
proof -
  from cp_plain [OF assms] obtain w1 st where c: "cp w a b = Some (w1, st)"
    and o: "(st = 1 \<and> w1 = w) \<or>
            (st = snd (cp_bytes w c) \<and> stat w1 b = Some (Reg (fst (cp_bytes w c)) (clock w)))"
    by blast
  show ?thesis
  proof (cases "cp_child w = Runs")
    case False
    then have "copy_file w a b = Inr (w, snd (projr (copy_file w a b)))"
      and "copy_status w a b \<noteq> Some 0"
      by (auto simp: copy_file_def copy_status_def W_EXITCODE_def SIGKILL_def split: child.splits)
    then show ?thesis by metis
  next
    case True
    with c have f: "copy_file w a b =
        Inr (w1, (if st = 0 then [] else [CpMessage]) @ [Copied a b])"
      by (simp add: copy_file_def)
    from c have "st \<le> 1" by (rule cp_status_le)
    then have z: "(W_EXITCODE st 0 = 0) = (st = 0)" by (simp add: W_EXITCODE_zero)
    from True c have s: "copy_status w a b = Some (W_EXITCODE st 0)"
      by (simp add: copy_status_def)
    from o cp_bytes_cases [of w c]
    have "(st = 0 \<longrightarrow> stat w1 b = Some (Reg c (clock w))) \<and>
          (st \<noteq> 0 \<longrightarrow> w1 = w \<or> stat w1 b = Some (Reg (take (file_size_limit w) c) (clock w)))"
      by auto
    with f s z show ?thesis by simp
  qed
qed

lemma tight_run: "main tight_world [''file_sync'', ''/src'', ''/dst''] = Inr (0, tight_log, tight_after)"
  by code_simp

lemma roomy_run: "main roomy_world [''file_sync'', ''/src'', ''/dst''] = Inr (0, roomy_log, roomy_after)"
  by code_simp

lemma tight_stat_src: "stat tight_world ''/src/a.txt'' = Some (Reg ''alpha'' 7)"
  by code_simp

lemma tight_stat_dst: "stat tight_world ''/dst/a.txt'' = Some (Reg ''old'' 3)"
  by code_simp

lemma roomy_stat_src: "stat roomy_world ''/src/a.txt'' = Some (Reg ''alpha'' 7)"
  by code_simp

lemma roomy_stat_dst: "stat roomy_world ''/dst/a.txt'' = Some (Reg ''old'' 3)"
  by code_simp

lemma roomy_status: "copy_status roomy_world ''/src/a.txt'' ''/dst/a.txt'' = Some 0"
  by code_simp

lemma roomy_copy:
  "copy_file roomy_world ''/src/a.txt'' ''/dst/a.txt'' =
     Inr (roomy_after, [Copied ''/src/a.txt'' ''/dst/a.txt''])"
  by code_simp


subsection \<open>The body of the loop on a regular source and a plain destination\<close>






lemma sample_file_a:
  "main_sync_file sample_world ''/src'' ''/dst'' ''a.txt'' =
     Inr (sample_world\<lparr>fs := store ''/dst/a.txt'' (Reg ''alpha'' 10) (fs sample_world)\<rparr>,
          [NewerInSource ''a.txt'', Copied ''/src/a.txt'' ''/dst/a.txt''])"
  by code_simp

lemma sample_file_b:
  "main_sync_file sample_world ''/src'' ''/dst'' ''b.txt'' =
     Inr (add_entry sample_world ''/dst/b.txt'' (Reg ''bravo'' 10),
          [NewFileFound ''b.txt'', Copied ''/src/b.txt'' ''/dst/b.txt''])"
  by code_simp

lemma sample_file_c:
  "main_sync_file sample_world ''/src'' ''/dst'' ''c.txt'' = Inr (sample_world, [Identical ''c.txt''])"
  by code_simp

lemma sample_file_d:
  "main_sync_file sample_world ''/src'' ''/dst'' ''d.txt'' =
     Inr (sample_world, [NewerInDestination ''d.txt''])"
  by code_simp


section \<open>The claims\<close>

text \<open>
  Claim C2. The engine processes the candidate files in the byte-wise lexicographic
  order of their names: the names in the decision lines of a completed run, in order, are
  the collected names sorted by \<open>compare\<close>, so they are ordered by \<^verbatim>\<open>strcmp\<close> and each
  collected name is processed once. A source directory read as \<^verbatim>\<open>b.txt\<close>, \<^verbatim>\<open>a.txt\<close>,
  \<^verbatim>\<open>c.txt\<close> is processed as \<^verbatim>\<open>a.txt\<close>, \<^verbatim>\<open>b.txt\<close>, \<^verbatim>\<open>c.txt\<close> (the witness).
\<close>

theorem processing_order:
  assumes "main w argv = Inr (0, evs, w')"
  shows "map fst (decisions evs) = qsort compare (main_listing w argv) \<and>
         sorted_wrt (\<lambda>a b. strcmp a b \<le> 0) (map fst (decisions evs)) \<and>
         mset (map fst (decisions evs)) = mset (main_listing w argv)"
proof -
  from assms obtain abs_src w1 abs_dst evs1 c dp evs2 where
    src: "realpath w (argv ! 1) = Some abs_src" and
    dst: "main_destination w (argv ! 2) = Inr (w1, abs_dst, evs1)" and
    dp: "opendir w1 abs_src = Some dp" and
    run: "main_sync w1 abs_src abs_dst (candidates w1 abs_src dp) = Inr (w', evs2)" and
    evs: "evs = evs1 @ [WorkingDirectory c, Synchronizing abs_src abs_dst] @ evs2 @ [Complete]"
    by (rule main_exit0E)
  from dst have "decisions evs1 = []" by (rule decisions_main_destination)
  moreover from run have "map fst (decisions evs2) = candidates w1 abs_src dp"
    by (rule main_sync_names)
  ultimately have "map fst (decisions evs) = candidates w1 abs_src dp"
    using evs by (simp add: decisions_append decisions_Cons decisions_Nil)
  moreover from src dst dp
  have "candidates w1 abs_src dp = qsort compare (main_listing w argv)"
    by (simp add: candidates_def main_listing_def)
  ultimately have eq: "map fst (decisions evs) = qsort compare (main_listing w argv)"
    by simp
  have "sorted_wrt (\<lambda>a b. compare a b \<le> 0) (qsort compare (main_listing w argv))"
    by (rule sorted_qsort)
  then have "sorted_wrt (\<lambda>a b. strcmp a b \<le> 0) (qsort compare (main_listing w argv))"
    by (simp add: compare_def)
  with eq show ?thesis by (simp add: mset_qsort)
qed

theorem processing_order_witness:
  "main abc_world [''file_sync'', ''/src'', ''/dst''] = Inr (0, abc_log, abc_after) \<and>
   main_listing abc_world [''file_sync'', ''/src'', ''/dst''] = [''b.txt'', ''a.txt'', ''c.txt''] \<and>
   map fst (decisions abc_log) = [''a.txt'', ''b.txt'', ''c.txt''] \<and>
   map fst (decisions abc_log) = qsort compare [''b.txt'', ''a.txt'', ''c.txt''] \<and>
   sorted_wrt (\<lambda>a b. strcmp a b \<le> 0) [''a.txt'', ''b.txt'', ''c.txt'']"
proof -
  note t = processing_order [OF abc_run]
  have d: "map fst (decisions abc_log) = [''a.txt'', ''b.txt'', ''c.txt'']"
    by (simp add: abc_decisions)
  from t have "map fst (decisions abc_log) =
      qsort compare (main_listing abc_world [''file_sync'', ''/src'', ''/dst''])"
    by (rule conjunct1)
  then have q: "map fst (decisions abc_log) = qsort compare [''b.txt'', ''a.txt'', ''c.txt'']"
    by (simp only: abc_listing)
  from t have "sorted_wrt (\<lambda>a b. strcmp a b \<le> 0) (map fst (decisions abc_log))"
    by (rule conjunct1 [OF conjunct2])
  then have "sorted_wrt (\<lambda>a b. strcmp a b \<le> 0) [''a.txt'', ''b.txt'', ''c.txt'']"
    by (simp only: d)
  with abc_run abc_listing d q show ?thesis by (intro conjI)
qed

text \<open>
  Claim C3. For two existing files the recency comparator \<open>source_is_newer\<close> returns
  true exactly when the first file's modification time is strictly later than the
  second's; on equal times it returns false.
\<close>

theorem source_is_newer_strict:
  assumes "stat w a = Some na" and "stat w b = Some nb"
  shows "source_is_newer w a b = (st_mtime nb < st_mtime na) \<and>
         (st_mtime na = st_mtime nb \<longrightarrow> \<not> source_is_newer w a b)"
  using assms by (simp add: source_is_newer_def difftime_def stat_mtime_Some)

theorem source_is_newer_strict_witness:
  "stat sample_world ''/src/a.txt'' = Some (Reg ''alpha'' 7) \<and>
   stat sample_world ''/dst/a.txt'' = Some (Reg ''old'' 3) \<and>
   source_is_newer sample_world ''/src/a.txt'' ''/dst/a.txt'' \<and>
   stat sample_world ''/src/b.txt'' = Some (Reg ''bravo'' 5) \<and>
   stat sample_world ''/src/c.txt'' = Some (Reg ''charlie'' 5) \<and>
   \<not> source_is_newer sample_world ''/src/b.txt'' ''/src/c.txt''"
  using source_is_newer_strict [OF sample_stat_src_a sample_stat_dst_a]
        source_is_newer_strict [OF sample_stat_src_b sample_stat_src_c]
        sample_stat_src_a sample_stat_dst_a sample_stat_src_b sample_stat_src_c
  by simp







text \<open>
  Claim C5, as amended. For a source that is a regular file and a destination that is
  absent or a regular file the copy returns. When it succeeded (\<^verbatim>\<open>cp\<close> exited with 0)
  the destination holds exactly the source's bytes; when it did not, the destination is
  left in its prior state or holds the first bytes of the source, as many as were written
  before the failure (\<^verbatim>\<open>cp\<close> writes the destination in place).
\<close>

theorem copy_file_outcome:
  assumes "stat w src = Some (Reg c t)"
    and "stat w dst = None \<or> stat w dst = Some (Reg c' t')"
  shows "\<exists>w' evs. copy_file w src dst = Inr (w', evs) \<and>
         (copy_status w src dst = Some 0 \<longrightarrow> stat w' dst = Some (Reg c (clock w))) \<and>
         (copy_status w src dst \<noteq> Some 0 \<longrightarrow>
            w' = w \<or> stat w' dst = Some (Reg (take (file_size_limit w) c) (clock w)))"
  using assms by (rule copy_file_plain)

text \<open>
  Claim C5, as stated, fails when the copy stops at the size limit: the destination held
  \<^verbatim>\<open>old\<close>, the source holds \<^verbatim>\<open>alpha\<close>, \<^verbatim>\<open>cp\<close> exits with 1 and the destination is left
  with \<^verbatim>\<open>al\<close>.
\<close>

theorem copy_file_partial_counterexample:
  "stat tight_world ''/src/a.txt'' = Some (Reg ''alpha'' 7) \<and>
   stat tight_world ''/dst/a.txt'' = Some (Reg ''old'' 3) \<and>
   copy_status tight_world ''/src/a.txt'' ''/dst/a.txt'' = Some (W_EXITCODE 1 0) \<and>
   copy_file tight_world ''/src/a.txt'' ''/dst/a.txt'' =
     Inr (tight_after, [CpMessage, Copied ''/src/a.txt'' ''/dst/a.txt'']) \<and>
   stat tight_after ''/dst/a.txt'' = Some (Reg ''al'' 10)"
  by code_simp

theorem copy_file_outcome_witness:
  "stat roomy_world ''/src/a.txt'' = Some (Reg ''alpha'' 7) \<and>
   stat roomy_world ''/dst/a.txt'' = Some (Reg ''old'' 3) \<and>
   copy_status roomy_world ''/src/a.txt'' ''/dst/a.txt'' = Some 0 \<and>
   copy_file roomy_world ''/src/a.txt'' ''/dst/a.txt'' =
     Inr (roomy_after, [Copied ''/src/a.txt'' ''/dst/a.txt'']) \<and>
   stat roomy_after ''/dst/a.txt'' = Some (Reg ''alpha'' (clock roomy_world))"
proof -
  from copy_file_outcome [OF roomy_stat_src disjI2, OF roomy_stat_dst]
  obtain w' evs where 1: "copy_file roomy_world ''/src/a.txt'' ''/dst/a.txt'' = Inr (w', evs)"
    and 2: "copy_status roomy_world ''/src/a.txt'' ''/dst/a.txt'' = Some 0 \<longrightarrow>
      stat w' ''/dst/a.txt'' = Some (Reg ''alpha'' (clock roomy_world))"
    by (elim exE conjE)
  from 1 have w': "w' = roomy_after" unfolding roomy_copy by simp
  from 2 roomy_status have "stat w' ''/dst/a.txt'' = Some (Reg ''alpha'' (clock roomy_world))"
    by (rule mp)
  then have "stat roomy_after ''/dst/a.txt'' = Some (Reg ''alpha'' (clock roomy_world))"
    unfolding w' .
  with roomy_stat_src roomy_stat_dst roomy_status roomy_copy show ?thesis by (intro conjI)
qed






end
